theory Spec2Isabelle
  imports Main
begin

section \<open>Python values used by \<^verbatim>\<open>services/simple_rag.py\<close>\<close>

text \<open>
  A Python \<^verbatim>\<open>str\<close> is modelled as a \<^typ>\<open>string\<close>: a list of characters, each
  standing for one code point below 256 (the Latin-1 range). \<^verbatim>\<open>len\<close> is
  \<^const>\<open>length\<close>. Exceptions are values of \<open>py_error\<close>; a function that can raise
  returns \<open>py_error + 'a\<close>.
\<close>

type_synonym bytes = "char list"

datatype py_error =
    ValueError string
  | IndexError string
  | OSError string
  | Exception string

fun py_str_error :: "py_error \<Rightarrow> string" where
  "py_str_error (ValueError m) = m"
| "py_str_error (IndexError m) = m"
| "py_str_error (OSError m) = m"
| "py_str_error (Exception m) = m"

text \<open>\<^verbatim>\<open>str.isspace\<close> on one code point below 256: TAB..CR, FS..US, space, NEL, NBSP.\<close>

definition py_isspace :: "char \<Rightarrow> bool" where
  "py_isspace c = (let n = (of_char c :: nat) in
     (9 \<le> n \<and> n \<le> 13) \<or> (28 \<le> n \<and> n \<le> 32) \<or> n = 133 \<or> n = 160)"

text \<open>\<^verbatim>\<open>str.lower\<close>: A..Z and the Latin-1 capitals (all of 0xC0..0xDE but the
  multiplication sign 0xD7) move up by 32; every other code point below 256 stays.\<close>

definition py_lower_char :: "char \<Rightarrow> char" where
  "py_lower_char c = (let n = (of_char c :: nat) in
     if (65 \<le> n \<and> n \<le> 90) \<or> (192 \<le> n \<and> n \<le> 222 \<and> n \<noteq> 215)
     then char_of (n + 32) else c)"

definition py_lower :: "string \<Rightarrow> string" where
  "py_lower s = map py_lower_char s"

text \<open>\<^verbatim>\<open>str.strip()\<close>: leading and trailing whitespace removed.\<close>

definition py_strip :: "string \<Rightarrow> string" where
  "py_strip s = rev (dropWhile py_isspace (rev (dropWhile py_isspace s)))"

text \<open>\<^verbatim>\<open>str.split()\<close> with no argument: the maximal runs of non-whitespace, in order.\<close>

fun split_ws :: "string \<Rightarrow> string \<Rightarrow> string list" where
  "split_ws w [] = (if w = [] then [] else [w])"
| "split_ws w (c # cs) =
     (if py_isspace c then (if w = [] then split_ws [] cs else w # split_ws [] cs)
      else split_ws (w @ [c]) cs)"

definition py_split :: "string \<Rightarrow> string list" where
  "py_split s = split_ws [] s"

text \<open>\<^verbatim>\<open>s.startswith(p)\<close> and the substring test \<^verbatim>\<open>w in s\<close>.\<close>

fun py_startswith :: "string \<Rightarrow> string \<Rightarrow> bool" where
  "py_startswith s [] = True"
| "py_startswith [] (p # ps) = False"
| "py_startswith (c # cs) (p # ps) = (c = p \<and> py_startswith cs ps)"

fun py_in :: "string \<Rightarrow> string \<Rightarrow> bool" where
  "py_in w [] = (w = [])"
| "py_in w (c # cs) = (py_startswith (c # cs) w \<or> py_in w cs)"

text \<open>\<^verbatim>\<open>s[i]\<close>: a negative index counts from the end, an index out of range raises.\<close>

definition py_getitem :: "string \<Rightarrow> int \<Rightarrow> py_error + char" where
  "py_getitem s i =
     (if 0 \<le> i \<and> i < int (length s) then Inr (s ! nat i)
      else if i < 0 \<and> - int (length s) \<le> i then Inr (s ! nat (int (length s) + i))
      else Inl (IndexError ''string index out of range''))"

text \<open>\<^verbatim>\<open>s[a:b]\<close>: negative bounds count from the end, all bounds are clamped, never raises.\<close>

definition py_slice :: "string \<Rightarrow> int \<Rightarrow> int \<Rightarrow> string" where
  "py_slice s a b =
     (let n = int (length s);
          a' = (if a < 0 then max 0 (n + a) else min a n);
          b' = (if b < 0 then max 0 (n + b) else min b n)
      in take (nat (b' - a')) (drop (nat a') s))"

text \<open>\<^verbatim>\<open>xs[:k]\<close> on a list.\<close>

definition py_take :: "'a list \<Rightarrow> int \<Rightarrow> 'a list" where
  "py_take xs k = (if 0 \<le> k then take (nat k) xs else take (length xs - nat (- k)) xs)"

text \<open>\<^verbatim>\<open>str(i)\<close> for a natural number.\<close>

fun py_str_nat :: "nat \<Rightarrow> string" where
  "py_str_nat n =
     (if n < 10 then [char_of (48 + n)]
      else py_str_nat (n div 10) @ [char_of (48 + n mod 10)])"

declare py_str_nat.simps [simp del]

text \<open>\<^verbatim>\<open>sep.join(parts)\<close>.\<close>

fun py_join :: "string \<Rightarrow> string list \<Rightarrow> string" where
  "py_join sep [] = []"
| "py_join sep [p] = p"
| "py_join sep (p # q # ps) = p @ sep @ py_join sep (q # ps)"

text \<open>Truth value of an optional string: \<^verbatim>\<open>None\<close> and \<^verbatim>\<open>""\<close> are false.\<close>

fun py_truthy :: "string option \<Rightarrow> bool" where
  "py_truthy None = False"
| "py_truthy (Some s) = (s \<noteq> [])"

subsection \<open>The regular expressions of the classifier\<close>

text \<open>
  Every pattern handed to \<^verbatim>\<open>re.search\<close> is a sequence of literal strings and \<^verbatim>\<open>.*\<close>.
  Without the DOTALL flag the dot matches any character except a newline.
  \<open>re_match_here p s\<close>: \<open>p\<close> matches a prefix of \<open>s\<close>; \<open>re_search p s\<close>: it matches
  starting at some position of \<open>s\<close>.
\<close>

datatype re_item = Lit string | AnyStar

fun re_match_here :: "re_item list \<Rightarrow> string \<Rightarrow> bool" where
  "re_match_here [] s = True"
| "re_match_here (Lit l # r) s = (py_startswith s l \<and> re_match_here r (drop (length l) s))"
| "re_match_here (AnyStar # r) [] = re_match_here r []"
| "re_match_here (AnyStar # r) (c # cs) =
     (re_match_here r (c # cs) \<or> (c \<noteq> CHR 0x0A \<and> re_match_here (AnyStar # r) cs))"

fun re_search :: "re_item list \<Rightarrow> string \<Rightarrow> bool" where
  "re_search p [] = re_match_here p []"
| "re_search p (c # cs) = (re_match_here p (c # cs) \<or> re_search p cs)"

text \<open>
  What \<^verbatim>\<open>re\<close> means by these patterns, stated without an algorithm, for comparison
  with the matcher above: \<open>re_matches p m\<close> says that the whole string \<open>m\<close> is
  matched by \<open>p\<close>. A literal matches itself, \<^verbatim>\<open>.*\<close> matches any string without a
  newline, a sequence matches a concatenation.
\<close>

fun re_matches :: "re_item list \<Rightarrow> string \<Rightarrow> bool" where
  "re_matches [] m = (m = [])"
| "re_matches (Lit l # r) m = (\<exists>m'. m = l @ m' \<and> re_matches r m')"
| "re_matches (AnyStar # r) m =
     (\<exists>g m'. m = g @ m' \<and> CHR 0x0A \<notin> set g \<and> re_matches r m')"

section \<open>The chunker: \<^verbatim>\<open>chunk_text\<close>\<close>

definition sentence_end :: "char \<Rightarrow> bool" where
  "sentence_end c = (c \<in> set [CHR ''.'', CHR ''!'', CHR ''?'', CHR 0x0A])"

text \<open>
  The inner loop \<^verbatim>\<open>for i in range(end, stop, -1)\<close>: \<open>i\<close> runs from the naive end down to
  \<open>stop + 1\<close>; at the first \<open>i\<close> with a sentence-ending character the new end is
  \<open>i + 1\<close>. \<open>Inr None\<close>: the range is exhausted and the end stays as it was.
\<close>

function scan_back :: "string \<Rightarrow> int \<Rightarrow> int \<Rightarrow> py_error + int option" where
  "scan_back text i stop =
     (if stop < i then
        (case py_getitem text i of
           Inl e \<Rightarrow> Inl e
         | Inr c \<Rightarrow> if sentence_end c then Inr (Some (i + 1))
                    else scan_back text (i - 1) stop)
      else Inr None)"
  by pat_completeness auto
termination
  by (relation "measure (\<lambda>(text, i, stop). nat (i - stop))") auto

declare scan_back.simps [simp del]

text \<open>The value of \<^verbatim>\<open>end\<close> when the window is cut (source lines 177 to 183).\<close>

definition window_end :: "string \<Rightarrow> int \<Rightarrow> int \<Rightarrow> py_error + int" where
  "window_end text start chunk_size =
     (let end = start + chunk_size in
      if end < int (length text) then
        (case scan_back text end (max (start + chunk_size div 2) (end - 100)) of
           Inl e \<Rightarrow> Inl e
         | Inr None \<Rightarrow> Inr end
         | Inr (Some i1) \<Rightarrow> Inr i1)
      else Inr end)"

text \<open>
  The \<^verbatim>\<open>while start < len(text)\<close> loop. It need not terminate, so it is a partial
  function in the option monad: \<open>None\<close> is a run that never returns,
  \<open>Some (Inl e)\<close> a run that raises, \<open>Some (Inr chunks)\<close> a run that returns.
\<close>

partial_function (option) chunk_loop ::
  "string \<Rightarrow> int \<Rightarrow> int \<Rightarrow> int \<Rightarrow> string list \<Rightarrow> (py_error + string list) option" where
  "chunk_loop text chunk_size overlap start chunks =
     (if start < int (length text) then
        (case window_end text start chunk_size of
           Inl e \<Rightarrow> Some (Inl e)
         | Inr end \<Rightarrow>
             (let chunk = py_strip (py_slice text start end);
                  chunks' = (if chunk \<noteq> [] then chunks @ [chunk] else chunks);
                  start' = end - overlap
              in if int (length text) \<le> start' then Some (Inr chunks')
                 else chunk_loop text chunk_size overlap start' chunks'))
      else Some (Inr chunks))"

declare chunk_loop.simps [code]

definition chunk_text :: "string \<Rightarrow> int \<Rightarrow> int \<Rightarrow> (py_error + string list) option" where
  "chunk_text text chunk_size overlap =
     (if int (length text) \<le> chunk_size then Some (Inr [text])
      else chunk_loop text chunk_size overlap 0 [])"

text \<open>Position \<open>j\<close> of the text holds a sentence-ending character.\<close>

definition boundary_at :: "string \<Rightarrow> int \<Rightarrow> bool" where
  "boundary_at text j = (case py_getitem text j of Inl e \<Rightarrow> False | Inr c \<Rightarrow> sentence_end c)"

text \<open>A chunk as the loop appends it: not empty, no whitespace at either end.\<close>

definition trimmed_chunk :: "string \<Rightarrow> bool" where
  "trimmed_chunk c = (c \<noteq> [] \<and> py_strip c = c)"

section \<open>The stores\<close>

text \<open>
  \<open>file_metadata\<close> is the storage reference returned by \<^verbatim>\<open>save_file\<close>: a dict that
  always has the key \<^verbatim>\<open>storage_type\<close> (so it is never an empty dict, and Python's
  \<^verbatim>\<open>not file_metadata\<close> holds exactly when no registry entry was found) and may have
  \<^verbatim>\<open>file_path\<close>. Only these two keys are read by the code modelled here.
\<close>

record file_metadata =
  storage_type :: string
  file_path :: "string option"

text \<open>A Document Record: one value of \<^verbatim>\<open>chat_documents[chat_id]\<close>.\<close>

record doc_data =
  d_filename :: string
  d_chunks :: "string list"
  d_full_text :: string
  d_upload_time :: string
  d_file_metadata :: file_metadata

text \<open>One entry of the Global Registry \<^verbatim>\<open>documents_metadata\<close>.\<close>

record doc_meta =
  m_id :: string
  m_filename :: string
  m_file_metadata :: file_metadata
  m_chunks :: nat
  m_upload_time :: string
  m_chat_id :: "string option"

text \<open>
  The state of a \<^verbatim>\<open>SimpleRAG\<close> object. \<^verbatim>\<open>chat_documents\<close> maps a chat id to a dict
  from file id to Document Record; the inner dict is a list of pairs in insertion
  order, because the code iterates over it.
\<close>

record rag_state =
  documents_metadata :: "doc_meta list"
  chat_documents :: "string \<rightharpoonup> (string \<times> doc_data) list"

definition init_state :: rag_state where
  "init_state = \<lparr>documents_metadata = [], chat_documents = Map.empty\<rparr>"

text \<open>\<^verbatim>\<open>d[k] = v\<close> on a dict in insertion order: an existing key keeps its place.\<close>

fun dict_set :: "string \<Rightarrow> 'v \<Rightarrow> (string \<times> 'v) list \<Rightarrow> (string \<times> 'v) list" where
  "dict_set k v [] = [(k, v)]"
| "dict_set k v ((k', v') # kvs) =
     (if k' = k then (k, v) # kvs else (k', v') # dict_set k v kvs)"

text \<open>
  What the code calls and this development does not look into: storage (local disk
  or the Cloudinary service, whose module is not part of the sources at hand), the
  parsing of PDF, DOCX and text files behind \<^verbatim>\<open>extract_text\<close>, MD5, the clock, the
  file system. Each is a parameter; a call that can raise returns a sum.
\<close>

record collaborators =
  save_file :: "bytes \<Rightarrow> string \<Rightarrow> string option \<Rightarrow> py_error + file_metadata"
  extract_text :: "bytes \<Rightarrow> string \<Rightarrow> py_error + string"
  md5_hexdigest :: "bytes \<Rightarrow> string"
  datetime_now :: "nat \<Rightarrow> string"
  cloudinary_service :: bool
  cloudinary_delete_file :: "file_metadata \<Rightarrow> py_error + bool"
  os_path_exists :: "string \<Rightarrow> bool"
  os_remove :: "string \<Rightarrow> py_error + unit"

section \<open>Ingestion: \<^verbatim>\<open>process_document\<close>\<close>

record ingest_result =
  r_filename :: string
  r_chunk_count :: nat
  r_file_metadata :: file_metadata
  r_file_id :: string

text \<open>The \<^verbatim>\<open>except Exception\<close> handler: every failure is raised again, wrapped.\<close>

definition processing_failed :: "py_error \<Rightarrow> py_error" where
  "processing_failed e = Exception (''Document processing failed: '' @ py_str_error e)"

text \<open>
  The result pairs the outcome with the state left behind, so that what a failed
  call did to the stores is part of the model. \<open>None\<close>: the call never returns.
\<close>

definition process_document ::
  "collaborators \<Rightarrow> rag_state \<Rightarrow> bytes \<Rightarrow> string \<Rightarrow> string option
     \<Rightarrow> ((py_error + ingest_result) \<times> rag_state) option" where
  "process_document env st file_content filename chat_id =
     (case save_file env file_content filename chat_id of
        Inl e \<Rightarrow> Some (Inl (processing_failed e), st)
      | Inr file_metadata \<Rightarrow>
     (case extract_text env file_content filename of
        Inl e \<Rightarrow> Some (Inl (processing_failed e), st)
      | Inr text \<Rightarrow>
     if text = [] then
       Some (Inl (processing_failed
               (ValueError ''No text could be extracted from the document'')), st)
     else
     (case chunk_text text 1000 200 of
        None \<Rightarrow> None
      | Some (Inl e) \<Rightarrow> Some (Inl (processing_failed e), st)
      | Some (Inr chunks) \<Rightarrow>
          (let file_id = take 10 (md5_hexdigest env file_content);
               st1 = (case chat_id of
                        None \<Rightarrow> st
                      | Some cid \<Rightarrow>
                          if cid = [] then st
                          else st\<lparr>chat_documents := (chat_documents st)(cid \<mapsto>
                                 dict_set file_id
                                   \<lparr>d_filename = filename, d_chunks = chunks,
                                    d_full_text = text,
                                    d_upload_time = datetime_now env 0,
                                    d_file_metadata = file_metadata\<rparr>
                                   (case chat_documents st cid of
                                      None \<Rightarrow> [] | Some docs \<Rightarrow> docs))\<rparr>);
               st2 = st1\<lparr>documents_metadata := documents_metadata st1 @
                        [\<lparr>m_id = file_id, m_filename = filename,
                          m_file_metadata = file_metadata, m_chunks = length chunks,
                          m_upload_time = datetime_now env 1,
                          m_chat_id = chat_id\<rparr>]\<rparr>
           in Some (Inr \<lparr>r_filename = filename, r_chunk_count = length chunks,
                         r_file_metadata = file_metadata, r_file_id = file_id\<rparr>, st2)))))"

section \<open>The classifier: \<^verbatim>\<open>should_trigger_web_search\<close>\<close>

definition search_triggers :: "string list" where
  "search_triggers =
     [''latest'', ''recent'', ''current'', ''today'', ''now'', ''this week'', ''this month'',
      ''yesterday'', ''breaking'', ''update'', ''news'', ''new'', ''fresh'', ''live'',
      ''weather'', ''temperature'', ''forecast'', ''climate'', ''rain'', ''sunny'', ''cloudy'',
      ''humidity'', ''wind'', ''storm'', ''hot'', ''cold'', ''degrees'',
      ''stock price'', ''exchange rate'', ''cryptocurrency'', ''bitcoin'', ''price'',
      ''market'', ''cost'', ''trending'', ''viral'', ''popular'',
      ''happening'', ''events'', ''breaking news'',
      ''what is the current'', ''how much does'', ''when did'', ''who is currently'',
      ''where is now'', ''what happened today'', ''tell me the current'']"

definition no_search_keywords :: "string list" where
  "no_search_keywords =
     [''document'', ''file'', ''upload'', ''analyze this'', ''summarize this'',
      ''from the document'', ''in the pdf'', ''according to the file'']"

definition weather_patterns :: "re_item list list" where
  "weather_patterns =
     [[Lit ''weather'', AnyStar, Lit ''in'', AnyStar],
      [Lit ''temperature'', AnyStar, Lit ''in'', AnyStar],
      [Lit ''how'', AnyStar, Lit ''hot'', AnyStar, Lit ''today''],
      [Lit ''how'', AnyStar, Lit ''cold'', AnyStar, Lit ''today''],
      [Lit ''rain'', AnyStar, Lit ''today''],
      [Lit ''forecast'', AnyStar, Lit ''for'', AnyStar],
      [Lit ''climate'', AnyStar, Lit ''in'', AnyStar]]"

definition question_patterns :: "re_item list list" where
  "question_patterns =
     [[Lit ''what'', AnyStar, Lit ''is'', AnyStar, Lit ''price''],
      [Lit ''how'', AnyStar, Lit ''much'', AnyStar, Lit ''cost''],
      [Lit ''when'', AnyStar, Lit ''did'', AnyStar, Lit ''happen''],
      [Lit ''who'', AnyStar, Lit ''is'', AnyStar, Lit ''currently''],
      [Lit ''where'', AnyStar, Lit ''is'', AnyStar, Lit ''now''],
      [Lit ''what'', AnyStar, Lit ''happened'', AnyStar, Lit ''today''],
      [Lit ''latest'', AnyStar, Lit ''on''],
      [Lit ''current'', AnyStar, Lit ''weather''],
      [Lit ''tell'', AnyStar, Lit ''me'', AnyStar, Lit ''current''],
      [Lit ''what'', AnyStar, Lit ''is'', AnyStar, Lit ''the'', AnyStar, Lit ''current'']]"

definition should_trigger_web_search :: "string \<Rightarrow> bool" where
  "should_trigger_web_search query =
     (let query_lower = py_lower query in
      if list_ex (\<lambda>keyword. py_in keyword query_lower) no_search_keywords then False
      else if list_ex (\<lambda>trigger. py_in trigger query_lower) search_triggers then True
      else if list_ex (\<lambda>pattern. re_search pattern query_lower) weather_patterns then True
      else if list_ex (\<lambda>pattern. re_search pattern query_lower) question_patterns then True
      else if list_ex (\<lambda>word. py_in word query_lower)
                [''weather'', ''temperature'', ''forecast'', ''climate''] then True
      else False)"

section \<open>The retriever: \<^verbatim>\<open>simple_search\<close>\<close>

text \<open>\<^verbatim>\<open>sum(1 for word in query_words if word in chunk_lower)\<close>.\<close>

definition chunk_score :: "string list \<Rightarrow> string \<Rightarrow> nat" where
  "chunk_score query_words chunk =
     (let chunk_lower = py_lower chunk
      in sum_list (map (\<lambda>word. 1) (filter (\<lambda>word. py_in word chunk_lower) query_words)))"

record scored_chunk =
  sc_chunk :: string
  sc_score :: nat
  sc_filename :: string

text \<open>The two nested loops that fill \<^verbatim>\<open>relevant_chunks\<close>.\<close>

definition relevant_chunks :: "string list \<Rightarrow> (string \<times> doc_data) list \<Rightarrow> scored_chunk list" where
  "relevant_chunks query_words docs =
     concat (map (\<lambda>(file_id, doc).
       concat (map (\<lambda>chunk.
         (let score = chunk_score query_words chunk
          in if 0 < score
             then [\<lparr>sc_chunk = chunk, sc_score = score, sc_filename = d_filename doc\<rparr>]
             else [])) (d_chunks doc))) docs)"

text \<open>\<^verbatim>\<open>sort(key=score, reverse=True)\<close>: descending, equal scores keep their order.\<close>

definition sort_by_score :: "scored_chunk list \<Rightarrow> scored_chunk list" where
  "sort_by_score xs = sort_key (\<lambda>x. - int (sc_score x)) xs"

fun context_parts :: "nat \<Rightarrow> scored_chunk list \<Rightarrow> string list" where
  "context_parts i [] = []"
| "context_parts i (x # xs) =
     (''[Document Reference '' @ py_str_nat i @ '': '' @ sc_filename x @ '']'' @ [CHR 0x0A]
        @ sc_chunk x) # context_parts (Suc i) xs"

definition enhanced_prompt :: "string \<Rightarrow> string \<Rightarrow> string" where
  "enhanced_prompt context query =
     ''You have access to relevant information from uploaded documents. '' @
     ''Use this knowledge naturally in your response.'' @ [CHR 0x0A, CHR 0x0A] @
     ''Available Context:'' @ [CHR 0x0A] @ context @ [CHR 0x0A, CHR 0x0A] @
     ''User Query: '' @ query @ [CHR 0x0A, CHR 0x0A] @
     ''Please provide a comprehensive and helpful response:''"

text \<open>
  Nothing inside the \<^verbatim>\<open>try\<close> block can raise on a state built by
  \<^verbatim>\<open>process_document\<close> (every record has its keys), so the handler has no branch here.
\<close>

definition simple_search :: "rag_state \<Rightarrow> string \<Rightarrow> string option \<Rightarrow> int \<Rightarrow> string" where
  "simple_search st query chat_id top_k =
     (case chat_id of
        None \<Rightarrow> query
      | Some cid \<Rightarrow>
          if cid = [] then query
          else (case chat_documents st cid of
                  None \<Rightarrow> query
                | Some docs \<Rightarrow>
                    if docs = [] then query
                    else (let query_words = py_split (py_lower query);
                              top_chunks =
                                py_take (sort_by_score (relevant_chunks query_words docs)) top_k
                          in if top_chunks = [] then query
                             else enhanced_prompt
                                    (py_join [CHR 0x0A, CHR 0x0A] (context_parts 1 top_chunks))
                                    query)))"

section \<open>\<^verbatim>\<open>has_documents\<close> and \<^verbatim>\<open>delete_document\<close>\<close>

definition has_documents :: "rag_state \<Rightarrow> string option \<Rightarrow> bool" where
  "has_documents st chat_id =
     (case chat_id of
        None \<Rightarrow> 0 < length (documents_metadata st)
      | Some cid \<Rightarrow>
          if cid = [] then 0 < length (documents_metadata st)
          else (case chat_documents st cid of
                  None \<Rightarrow> False
                | Some docs \<Rightarrow> 0 < length docs))"

text \<open>The block under \<^verbatim>\<open># Delete from storage\<close>; an exception leaves through \<open>Inl\<close>.\<close>

definition delete_from_storage :: "collaborators \<Rightarrow> file_metadata \<Rightarrow> py_error + bool" where
  "delete_from_storage env file_metadata =
     (if storage_type file_metadata = ''cloudinary'' \<and> cloudinary_service env
      then cloudinary_delete_file env file_metadata
      else if storage_type file_metadata = ''local'' then
        (case file_path file_metadata of
           None \<Rightarrow> Inr False
         | Some p \<Rightarrow>
             if p \<noteq> [] \<and> os_path_exists env p
             then (case os_remove env p of Inl e \<Rightarrow> Inl e | Inr u \<Rightarrow> Inr True)
             else Inr False)
      else Inr False)"

text \<open>The loop under \<^verbatim>\<open># Remove from memory\<close>: the first record with the filename goes.\<close>

fun remove_first_named :: "string \<Rightarrow> (string \<times> doc_data) list \<Rightarrow> (string \<times> doc_data) list" where
  "remove_first_named filename [] = []"
| "remove_first_named filename ((file_id, doc) # docs) =
     (if d_filename doc = filename then docs
      else (file_id, doc) # remove_first_named filename docs)"

definition delete_document ::
  "collaborators \<Rightarrow> rag_state \<Rightarrow> string \<Rightarrow> string option \<Rightarrow> bool \<times> rag_state" where
  "delete_document env st filename chat_id =
     (case find (\<lambda>doc. m_filename doc = filename \<and> m_chat_id doc = chat_id)
             (documents_metadata st) of
        None \<Rightarrow> (False, st)
      | Some doc \<Rightarrow>
          (case delete_from_storage env (m_file_metadata doc) of
             Inl e \<Rightarrow> (False, st)
           | Inr success \<Rightarrow>
               (let st1 = (case chat_id of
                             None \<Rightarrow> st
                           | Some cid \<Rightarrow>
                               if cid = [] then st
                               else (case chat_documents st cid of
                                       None \<Rightarrow> st
                                     | Some docs \<Rightarrow>
                                         st\<lparr>chat_documents := (chat_documents st)(cid \<mapsto>
                                              remove_first_named filename docs)\<rparr>));
                    st2 = st1\<lparr>documents_metadata :=
                            filter (\<lambda>doc. \<not> (m_filename doc = filename \<and> m_chat_id doc = chat_id))
                              (documents_metadata st1)\<rparr>
                in (success, st2))))"

section \<open>Runs, and the two stores side by side\<close>

datatype call =
    ProcessDocument bytes string "string option"
  | DeleteDocument string "string option"

text \<open>A sequence of calls on one object; \<open>None\<close> if one of them never returns.\<close>

fun run_calls :: "collaborators \<Rightarrow> rag_state \<Rightarrow> call list \<Rightarrow> rag_state option" where
  "run_calls env st [] = Some st"
| "run_calls env st (ProcessDocument file_content filename chat_id # calls) =
     (case process_document env st file_content filename chat_id of
        None \<Rightarrow> None
      | Some (outcome, st') \<Rightarrow> run_calls env st' calls)"
| "run_calls env st (DeleteDocument filename chat_id # calls) =
     run_calls env (snd (delete_document env st filename chat_id)) calls"

text \<open>The (id, filename) pairs the Global Registry holds for a chat, and those the
  Chat Store holds under it.\<close>

definition registry_entries :: "rag_state \<Rightarrow> string \<Rightarrow> (string \<times> string) list" where
  "registry_entries st cid =
     map (\<lambda>doc. (m_id doc, m_filename doc))
       (filter (\<lambda>doc. m_chat_id doc = Some cid) (documents_metadata st))"

definition chat_records :: "rag_state \<Rightarrow> string \<Rightarrow> (string \<times> string) list" where
  "chat_records st cid =
     (case chat_documents st cid of
        None \<Rightarrow> []
      | Some docs \<Rightarrow> map (\<lambda>(file_id, doc). (file_id, d_filename doc)) docs)"

text \<open>The relevance score in the words of the specification: the number of distinct
  query tokens found in the lower-cased chunk.\<close>

definition spec_relevance_score :: "string \<Rightarrow> string \<Rightarrow> nat" where
  "spec_relevance_score query chunk =
     card {word \<in> set (py_split (py_lower query)). py_in word (py_lower chunk)}"

section \<open>A concrete set of collaborators\<close>

text \<open>
  Local storage of plain-text files: \<^verbatim>\<open>_save_local\<close> names the file after the digest,
  a text file decodes to itself, every stored path exists and can be removed. The
  digests are the MD5 values of the three byte strings used below.
\<close>

definition example_md5 :: "bytes \<Rightarrow> string" where
  "example_md5 b =
     (if b = ''report one'' then ''42095e5a346bc4546737717f01f31958''
      else if b = ''report two'' then ''f644e9b966cc6cbc5283cc8acad1d797''
      else ''d41d8cd98f00b204e9800998ecf8427e'')"

definition local_files :: collaborators where
  "local_files =
     \<lparr>save_file = (\<lambda>file_content filename chat_id.
         Inr \<lparr>storage_type = ''local'',
              file_path = Some (''documents/'' @ take 10 (example_md5 file_content)
                                  @ ''_'' @ filename)\<rparr>),
      extract_text = (\<lambda>file_content filename. Inr file_content),
      md5_hexdigest = example_md5,
      datetime_now = (\<lambda>n. ''2024-01-01 00:00:00''),
      cloudinary_service = False,
      cloudinary_delete_file = (\<lambda>file_metadata. Inr False),
      os_path_exists = (\<lambda>p. True),
      os_remove = (\<lambda>p. Inr ())\<rparr>"


section \<open>Facts about the Python primitives\<close>

lemma py_startswith_iff: "py_startswith s p \<longleftrightarrow> (\<exists>r. s = p @ r)"
  by (induction s p rule: py_startswith.induct) auto

lemma py_in_iff: "py_in w s \<longleftrightarrow> (\<exists>p r. s = p @ w @ r)"
proof (induction s)
  case Nil
  then show ?case by simp
next
  case (Cons c cs)
  show ?case
  proof
    assume "py_in w (c # cs)"
    then consider "py_startswith (c # cs) w" | "py_in w cs" by auto
    then show "\<exists>p r. c # cs = p @ w @ r"
    proof cases
      case 1
      then obtain r where "c # cs = w @ r" by (auto simp: py_startswith_iff)
      then have "c # cs = [] @ w @ r" by simp
      then show ?thesis by blast
    next
      case 2
      with Cons obtain p r where "cs = p @ w @ r" by auto
      then have "c # cs = (c # p) @ w @ r" by simp
      then show ?thesis by blast
    qed
  next
    assume "\<exists>p r. c # cs = p @ w @ r"
    then obtain p r where pr: "c # cs = p @ w @ r" by blast
    show "py_in w (c # cs)"
    proof (cases p)
      case Nil
      with pr have "py_startswith (c # cs) w" by (auto simp: py_startswith_iff)
      then show ?thesis by simp
    next
      case (Cons a p')
      with pr have "cs = p' @ w @ r" by simp
      with Cons.IH have "py_in w cs" by blast
      then show ?thesis by simp
    qed
  qed
qed

lemma py_lower_char_idem: "py_lower_char (py_lower_char c) = py_lower_char c"
proof -
  have "of_char (char_of (of_char c + 32 :: nat)) = (of_char c + 32 :: nat)"
    if "(of_char c :: nat) \<le> 222"
    using that by (simp add: of_char_of)
  then show ?thesis
    by (auto simp: py_lower_char_def Let_def)
qed

lemma py_lower_idem: "py_lower (py_lower s) = py_lower s"
  by (simp add: py_lower_def py_lower_char_idem)

section \<open>The chunker\<close>

lemma py_getitem_in_range:
  "0 \<le> j \<Longrightarrow> j < int (length s) \<Longrightarrow> py_getitem s j = Inr (s ! nat j)"
  by (simp add: py_getitem_def)

lemma py_getitem_error:
  "py_getitem s j = Inl err \<Longrightarrow> j < - int (length s) \<or> int (length s) \<le> j"
  by (auto simp: py_getitem_def split: if_splits)

lemma scan_back_found:
  "scan_back t i stop = Inr (Some e) \<Longrightarrow>
     stop + 2 \<le> e \<and> e \<le> i + 1 \<and> boundary_at t (e - 1) \<and>
     (\<forall>j. e \<le> j \<and> j \<le> i \<longrightarrow> \<not> boundary_at t j)"
proof (induction t i stop rule: scan_back.induct)
  case (1 t i stop)
  show ?case
  proof (cases "stop < i")
    case False
    with "1.prems" show ?thesis by (simp add: scan_back.simps)
  next
    case True
    show ?thesis
    proof (cases "py_getitem t i")
      case (Inl err)
      with True "1.prems" show ?thesis by (simp add: scan_back.simps)
    next
      case (Inr c)
      show ?thesis
      proof (cases "sentence_end c")
        case True
        with \<open>stop < i\<close> Inr "1.prems" have "e = i + 1" by (simp add: scan_back.simps)
        with \<open>stop < i\<close> Inr True show ?thesis by (auto simp: boundary_at_def)
      next
        case False
        with \<open>stop < i\<close> Inr "1.prems" have "scan_back t (i - 1) stop = Inr (Some e)"
          by (simp add: scan_back.simps)
        from "1.IH" [OF \<open>stop < i\<close> Inr False this]
        have ih: "stop + 2 \<le> e" "e \<le> i" "boundary_at t (e - 1)"
          "\<forall>j. e \<le> j \<and> j \<le> i - 1 \<longrightarrow> \<not> boundary_at t j"
          by auto
        have "\<not> boundary_at t j" if "e \<le> j" "j \<le> i" for j
        proof (cases "j = i")
          case True
          with Inr False show ?thesis by (simp add: boundary_at_def)
        next
          case False
          with that ih(4) show ?thesis by simp
        qed
        with ih show ?thesis by simp
      qed
    qed
  qed
qed

lemma scan_back_none:
  "scan_back t i stop = Inr None \<Longrightarrow> (\<forall>j. stop < j \<and> j \<le> i \<longrightarrow> \<not> boundary_at t j)"
proof (induction t i stop rule: scan_back.induct)
  case (1 t i stop)
  show ?case
  proof (cases "stop < i")
    case False
    then show ?thesis by auto
  next
    case True
    show ?thesis
    proof (cases "py_getitem t i")
      case (Inl err)
      with True "1.prems" show ?thesis by (simp add: scan_back.simps)
    next
      case (Inr c)
      show ?thesis
      proof (cases "sentence_end c")
        case True
        with \<open>stop < i\<close> Inr "1.prems" show ?thesis by (simp add: scan_back.simps)
      next
        case False
        with \<open>stop < i\<close> Inr "1.prems" have "scan_back t (i - 1) stop = Inr None"
          by (simp add: scan_back.simps)
        from "1.IH" [OF \<open>stop < i\<close> Inr False this]
        have ih: "\<forall>j. stop < j \<and> j \<le> i - 1 \<longrightarrow> \<not> boundary_at t j" .
        have "\<not> boundary_at t j" if "stop < j" "j \<le> i" for j
        proof (cases "j = i")
          case True
          with Inr False show ?thesis by (simp add: boundary_at_def)
        next
          case False
          with that ih show ?thesis by simp
        qed
        then show ?thesis by simp
      qed
    qed
  qed
qed

lemma scan_back_error:
  "scan_back t i stop = Inl err \<Longrightarrow> (\<exists>j. stop < j \<and> j \<le> i \<and> py_getitem t j = Inl err)"
proof (induction t i stop rule: scan_back.induct)
  case (1 t i stop)
  show ?case
  proof (cases "stop < i")
    case False
    with "1.prems" show ?thesis by (simp add: scan_back.simps)
  next
    case True
    show ?thesis
    proof (cases "py_getitem t i")
      case (Inl e2)
      with True "1.prems" have "e2 = err" by (simp add: scan_back.simps)
      with Inl True show ?thesis by auto
    next
      case (Inr c)
      show ?thesis
      proof (cases "sentence_end c")
        case True
        with \<open>stop < i\<close> Inr "1.prems" show ?thesis by (simp add: scan_back.simps)
      next
        case False
        with \<open>stop < i\<close> Inr "1.prems" have "scan_back t (i - 1) stop = Inl err"
          by (simp add: scan_back.simps)
        from "1.IH" [OF \<open>stop < i\<close> Inr False this]
        obtain j where "stop < j" "j \<le> i - 1" "py_getitem t j = Inl err" by auto
        then show ?thesis by (intro exI [of _ j]) auto
      qed
    qed
  qed
qed

text \<open>From a start that is not negative the cut never raises, and it lies beyond
  \<open>start + chunk_size div 2\<close> and beyond \<open>start + chunk_size - 100\<close>.\<close>

lemma window_end_progress:
  assumes "0 \<le> start" "0 \<le> cs"
  shows "\<exists>e. window_end t start cs = Inr e \<and> e \<le> start + cs + 1 \<and>
           (e = start + cs \<or> max (start + cs div 2) (start + cs - 100) + 2 \<le> e)"
proof (cases "start + cs < int (length t)")
  case False
  then show ?thesis by (simp add: window_end_def)
next
  case True
  let ?stop = "max (start + cs div 2) (start + cs - 100)"
  show ?thesis
  proof (cases "scan_back t (start + cs) ?stop")
    case (Inl err)
    then obtain j where j: "?stop < j" "j \<le> start + cs" "py_getitem t j = Inl err"
      using scan_back_error by blast
    from assms j(1) have "0 \<le> j" by linarith
    with j(2) True have "py_getitem t j = Inr (t ! nat j)"
      by (simp add: py_getitem_in_range)
    with j(3) show ?thesis by simp
  next
    case (Inr found)
    show ?thesis
    proof (cases found)
      case None
      with Inr True show ?thesis by (simp add: window_end_def)
    next
      case (Some e)
      with Inr have "?stop + 2 \<le> e" "e \<le> start + cs + 1"
        using scan_back_found [of t "start + cs" ?stop e] by auto
      with Inr Some True show ?thesis by (simp add: window_end_def)
    qed
  qed
qed

text \<open>The loop returns whenever every cut moves the start forward: the overlap is
  below the chunk size and at most one above the larger of \<open>chunk_size div 2\<close> and
  \<open>chunk_size - 100\<close>.\<close>

lemma chunk_loop_returns:
  assumes "1 \<le> cs" "ov < cs" "ov \<le> max (cs div 2) (cs - 100) + 1" "0 \<le> start"
  shows "\<exists>r. chunk_loop t cs ov start chunks = Some (Inr r)"
  using assms(4)
proof (induction "nat (int (length t) - start)" arbitrary: start chunks rule: less_induct)
  case less
  show ?case
  proof (cases "start < int (length t)")
    case False
    then show ?thesis by (subst chunk_loop.simps) simp
  next
    case True
    from window_end_progress [of start cs t] less.prems assms(1)
    obtain e where e: "window_end t start cs = Inr e"
      "e = start + cs \<or> max (start + cs div 2) (start + cs - 100) + 2 \<le> e"
      by auto
    from e(2) assms(2,3) have adv: "start < e - ov" by auto
    define chunks' where
      "chunks' = (if py_strip (py_slice t start e) \<noteq> []
                  then chunks @ [py_strip (py_slice t start e)] else chunks)"
    show ?thesis
    proof (cases "int (length t) \<le> e - ov")
      case True
      with \<open>start < int (length t)\<close> e(1) show ?thesis
        by (subst chunk_loop.simps) (simp add: Let_def)
    next
      case False
      with adv True have "nat (int (length t) - (e - ov)) < nat (int (length t) - start)"
        by simp
      moreover from adv less.prems have "0 \<le> e - ov" by simp
      ultimately obtain r where "chunk_loop t cs ov (e - ov) chunks' = Some (Inr r)"
        using less.hyps by blast
      with \<open>start < int (length t)\<close> e(1) False show ?thesis
        by (subst chunk_loop.simps) (simp add: Let_def chunks'_def)
    qed
  qed
qed

lemma chunk_text_returns:
  assumes "1 \<le> cs" "ov < cs" "ov \<le> max (cs div 2) (cs - 100) + 1"
  shows "\<exists>r. chunk_text t cs ov = Some (Inr r)"
  using chunk_loop_returns [OF assms, of 0 t "[]"] by (simp add: chunk_text_def)

text \<open>With the default chunk size and overlap, as \<^verbatim>\<open>process_document\<close> calls it:\<close>

lemma chunk_text_default_returns: "\<exists>r. chunk_text t 1000 200 = Some (Inr r)"
  by (rule chunk_text_returns) simp_all

text \<open>A cut that puts the next start where this one was: the loop never returns.\<close>

lemma chunk_loop_stuck:
  assumes "start < int (length t)" "window_end t start cs = Inr e" "e - ov = start"
  shows "chunk_loop t cs ov start chunks = None"
proof (rule ccontr)
  assume "chunk_loop t cs ov start chunks \<noteq> None"
  then obtain y where y: "chunk_loop t cs ov start chunks = Some y" by auto
  have "\<not> (t = t \<and> cs = cs \<and> ov = ov \<and> start = start)"
  proof (rule chunk_loop.raw_induct
      [where P = "\<lambda>t' cs' ov' start' chunks' y'.
                    \<not> (t' = t \<and> cs' = cs \<and> ov' = ov \<and> start' = start)",
        OF _ y], goal_cases)
    case (1 f t' cs' ov' start' chunks' y')
    show ?case
    proof
      assume h: "t' = t \<and> cs' = cs \<and> ov' = ov \<and> start' = start"
      from 1(2) h assms
      have "\<exists>c. f t cs ov start c = Some y'"
        by (auto simp: Let_def split: if_splits)
      with 1(1) show False by blast
    qed
  qed
  then show False by simp
qed

lemma dropWhile_rev_dropWhile:
  "dropWhile P (rev (dropWhile P (rev (dropWhile P s)))) = rev (dropWhile P (rev (dropWhile P s)))"
proof (cases "rev (dropWhile P (rev (dropWhile P s)))")
  case Nil
  show ?thesis by (simp only: Nil dropWhile.simps)
next
  case (Cons x xs)
  let ?t = "dropWhile P s"
  have "?t = rev (dropWhile P (rev ?t)) @ rev (takeWhile P (rev ?t))"
    by (metis rev_append rev_rev_ident takeWhile_dropWhile_id)
  with Cons have "?t = x # (xs @ rev (takeWhile P (rev ?t)))" by simp
  then have "\<not> P x" by (metis hd_dropWhile list.sel(1) list.distinct(1))
  with Cons show ?thesis by simp
qed

lemma py_strip_idem: "py_strip (py_strip s) = py_strip s"
  by (simp add: py_strip_def dropWhile_rev_dropWhile dropWhile_idem)

lemma trimmed_chunk_strip: "py_strip s \<noteq> [] \<Longrightarrow> trimmed_chunk (py_strip s)"
  by (simp add: trimmed_chunk_def py_strip_idem)

lemma chunk_loop_chunks:
  assumes "chunk_loop t cs ov start acc = Some y"
  shows "list_all trimmed_chunk acc \<longrightarrow>
         (case y of Inl err \<Rightarrow> True | Inr r \<Rightarrow> list_all trimmed_chunk r)"
proof (rule chunk_loop.raw_induct
    [where P = "\<lambda>t cs ov start acc y. list_all trimmed_chunk acc \<longrightarrow>
        (case y of Inl err \<Rightarrow> True | Inr r \<Rightarrow> list_all trimmed_chunk r)",
      OF _ assms], goal_cases)
  case (1 f t cs ov start acc y)
  show ?case
  proof (intro impI)
    assume acc: "list_all trimmed_chunk acc"
    show "case y of Inl err \<Rightarrow> True | Inr r \<Rightarrow> list_all trimmed_chunk r"
    proof (cases "start < int (length t)")
      case False
      with 1(2) have "y = Inr acc" by simp
      with acc show ?thesis by simp
    next
      case True
      show ?thesis
      proof (cases "window_end t start cs")
        case (Inl err)
        with True 1(2) have "y = Inl err" by simp
        then show ?thesis by simp
      next
        case (Inr e)
        define acc' where
          "acc' = (if py_strip (py_slice t start e) \<noteq> []
                   then acc @ [py_strip (py_slice t start e)] else acc)"
        have acc': "list_all trimmed_chunk acc'"
          using acc by (simp add: acc'_def trimmed_chunk_strip)
        show ?thesis
        proof (cases "int (length t) \<le> e - ov")
          case True
          with \<open>start < int (length t)\<close> Inr 1(2) have "y = Inr acc'"
            by (simp add: Let_def acc'_def)
          with acc' show ?thesis by simp
        next
          case False
          with \<open>start < int (length t)\<close> Inr 1(2)
          have "f t cs ov (e - ov) acc' = Some y"
            by (simp add: Let_def acc'_def)
          from 1(1) [OF this] acc' show ?thesis by simp
        qed
      qed
    qed
  qed
qed

section \<open>The classifier\<close>

text \<open>The matcher decides exactly the containment of a match of the pattern.\<close>

lemma re_match_here_iff:
  "re_match_here p s \<longleftrightarrow> (\<exists>m r. s = m @ r \<and> re_matches p m)"
proof (induction p s rule: re_match_here.induct)
  case (1 s)
  show ?case by simp
next
  case (2 l r s)
  show ?case
  proof
    assume "re_match_here (Lit l # r) s"
    then have pre: "py_startswith s l" and rest: "re_match_here r (drop (length l) s)"
      by simp_all
    from pre obtain s' where s': "s = l @ s'" by (auto simp: py_startswith_iff)
    with rest 2 obtain m t where "s' = m @ t" "re_matches r m" by auto
    with s' have "s = (l @ m) @ t \<and> re_matches (Lit l # r) (l @ m)" by simp
    then show "\<exists>m t. s = m @ t \<and> re_matches (Lit l # r) m" by blast
  next
    assume "\<exists>m t. s = m @ t \<and> re_matches (Lit l # r) m"
    then obtain m t m' where "s = m @ t" "m = l @ m'" "re_matches r m'" by auto
    then have s: "s = l @ (m' @ t)" and "\<exists>m t'. drop (length l) s = m @ t' \<and> re_matches r m"
      by auto
    with 2 have "re_match_here r (drop (length l) s)" by simp
    moreover from s have "py_startswith s l" by (auto simp: py_startswith_iff)
    ultimately show "re_match_here (Lit l # r) s" by simp
  qed
next
  case (3 r)
  then show ?case by simp
next
  case (4 r c cs)
  show ?case
  proof
    assume "re_match_here (AnyStar # r) (c # cs)"
    then consider "re_match_here r (c # cs)"
      | "c \<noteq> CHR 0x0A" "re_match_here (AnyStar # r) cs" by auto
    then show "\<exists>m t. c # cs = m @ t \<and> re_matches (AnyStar # r) m"
    proof cases
      case 1
      with 4 obtain m t where "c # cs = m @ t" "re_matches r m" by auto
      moreover from this have "m = [] @ m \<and> CHR 0x0A \<notin> set [] \<and> re_matches r m"
        by simp
      then have "re_matches (AnyStar # r) m" unfolding re_matches.simps by blast
      ultimately have "c # cs = m @ t \<and> re_matches (AnyStar # r) m" by simp
      then show ?thesis by blast
    next
      case 2
      with 4 obtain m t where m: "cs = m @ t" "re_matches (AnyStar # r) m" by auto
      then obtain g m' where g: "m = g @ m'" "CHR 0x0A \<notin> set g" "re_matches r m'" by auto
      with 2(1) have "c # m = (c # g) @ m' \<and> CHR 0x0A \<notin> set (c # g) \<and> re_matches r m'"
        by simp
      then have "re_matches (AnyStar # r) (c # m)"
        unfolding re_matches.simps by blast
      with m(1) have "c # cs = (c # m) @ t \<and> re_matches (AnyStar # r) (c # m)" by simp
      then show ?thesis by blast
    qed
  next
    assume "\<exists>m t. c # cs = m @ t \<and> re_matches (AnyStar # r) m"
    then obtain m t g m' where
      m: "c # cs = m @ t" "m = g @ m'" "CHR 0x0A \<notin> set g" "re_matches r m'" by auto
    show "re_match_here (AnyStar # r) (c # cs)"
    proof (cases g)
      case Nil
      with m have "c # cs = m' @ t \<and> re_matches r m'" by simp
      with 4 have "re_match_here r (c # cs)" by blast
      then show ?thesis by simp
    next
      case (Cons c' g')
      with m have c: "c' = c" "c \<noteq> CHR 0x0A" "cs = (g' @ m') @ t" "CHR 0x0A \<notin> set g'"
        by auto
      from c(4) m(4) have "re_matches (AnyStar # r) (g' @ m')"
        unfolding re_matches.simps by blast
      with c(3) 4 have "re_match_here (AnyStar # r) cs" by blast
      with c(2) show ?thesis by simp
    qed
  qed
qed

lemma re_search_iff:
  "re_search p s \<longleftrightarrow> (\<exists>b m r. s = b @ m @ r \<and> re_matches p m)"
proof (induction s)
  case Nil
  show ?case by (simp add: re_match_here_iff)
next
  case (Cons c cs)
  show ?case
  proof
    assume "re_search p (c # cs)"
    then consider "re_match_here p (c # cs)" | "re_search p cs" by auto
    then show "\<exists>b m r. c # cs = b @ m @ r \<and> re_matches p m"
    proof cases
      case 1
      then obtain m r where "c # cs = m @ r" "re_matches p m"
        by (auto simp: re_match_here_iff)
      then have "c # cs = [] @ m @ r \<and> re_matches p m" by simp
      then show ?thesis by blast
    next
      case 2
      with Cons obtain b m r where "cs = b @ m @ r" "re_matches p m" by auto
      then have "c # cs = (c # b) @ m @ r \<and> re_matches p m" by simp
      then show ?thesis by blast
    qed
  next
    assume "\<exists>b m r. c # cs = b @ m @ r \<and> re_matches p m"
    then obtain b m r where bm: "c # cs = b @ m @ r" "re_matches p m" by blast
    show "re_search p (c # cs)"
    proof (cases b)
      case Nil
      with bm have "re_match_here p (c # cs)" by (auto simp: re_match_here_iff)
      then show ?thesis by simp
    next
      case (Cons c' b')
      with bm have "cs = b' @ m @ r" by simp
      with bm(2) Cons.IH have "re_search p cs" by blast
      then show ?thesis by simp
    qed
  qed
qed

lemma list_ex_py_in:
  "list_ex (\<lambda>k. py_in k s) ks \<longleftrightarrow> (\<exists>k\<in>set ks. \<exists>p r. s = p @ k @ r)"
  by (simp add: list_ex_iff py_in_iff)

lemma list_ex_re_search:
  "list_ex (\<lambda>pat. re_search pat s) pats \<longleftrightarrow>
     (\<exists>pat\<in>set pats. \<exists>p m r. s = p @ m @ r \<and> re_matches pat m)"
  by (simp add: list_ex_iff re_search_iff)

lemma decision_chain:
  "(if A then False else if B then True else if C then True else if D then True
    else if E then True else False) = (\<not> A \<and> (B \<or> (C \<or> D) \<or> E))"
  by auto

section \<open>The retriever\<close>

lemma chunk_score_length:
  "chunk_score ws chunk = length (filter (\<lambda>word. py_in word (py_lower chunk)) ws)"
  by (simp add: chunk_score_def Let_def sum_list_triv)

lemma length_filter_sum_count:
  "length (filter P ws) = (\<Sum>w\<in>{w \<in> set ws. P w}. count_list ws w)"
proof -
  have "length (filter P ws) = (\<Sum>w\<in>set (filter P ws). count_list (filter P ws) w)"
    by (simp add: sum_count_set)
  also have "\<dots> = (\<Sum>w\<in>{w \<in> set ws. P w}. count_list ws w)"
  proof (rule sum.cong)
    show "set (filter P ws) = {w \<in> set ws. P w}" by auto
  next
    fix w assume "w \<in> {w \<in> set ws. P w}"
    then have "P w" by simp
    then show "count_list (filter P ws) w = count_list ws w"
      by (induction ws) auto
  qed
  finally show ?thesis .
qed

lemma relevant_chunks_scores:
  "x \<in> set (relevant_chunks ws docs) \<Longrightarrow>
     sc_score x = chunk_score ws (sc_chunk x) \<and> 0 < sc_score x"
  by (auto simp: relevant_chunks_def Let_def split: if_splits)

lemma relevant_chunks_no_words: "relevant_chunks [] docs = []"
  by (auto simp: relevant_chunks_def chunk_score_def)

lemma simple_search_empty_query: "simple_search st [] chat_id top_k = []"
  by (simp add: simple_search_def py_lower_def py_split_def relevant_chunks_no_words
      sort_by_score_def py_take_def split: option.splits)

lemma simple_search_no_documents:
  "\<not> has_documents st (Some cid) \<Longrightarrow> simple_search st query (Some cid) top_k = query"
  by (simp add: simple_search_def has_documents_def split: option.splits if_splits)

section \<open>Ingestion and deletion\<close>

text \<open>What a successful \<^verbatim>\<open>process_document\<close> leaves behind.\<close>

lemma process_document_success:
  assumes "process_document env st fc fn chat_id = Some (Inr res, st')"
  shows "\<exists>fm tx chs.
           save_file env fc fn chat_id = Inr fm \<and> extract_text env fc fn = Inr tx \<and>
           tx \<noteq> [] \<and> chunk_text tx 1000 200 = Some (Inr chs) \<and>
           documents_metadata st' = documents_metadata st @
             [\<lparr>m_id = take 10 (md5_hexdigest env fc), m_filename = fn,
               m_file_metadata = fm, m_chunks = length chs,
               m_upload_time = datetime_now env 1, m_chat_id = chat_id\<rparr>] \<and>
           chat_documents st' =
             (if py_truthy chat_id
              then (chat_documents st)(the chat_id \<mapsto>
                     dict_set (take 10 (md5_hexdigest env fc))
                       \<lparr>d_filename = fn, d_chunks = chs, d_full_text = tx,
                        d_upload_time = datetime_now env 0, d_file_metadata = fm\<rparr>
                       (case chat_documents st (the chat_id) of None \<Rightarrow> [] | Some docs \<Rightarrow> docs))
              else chat_documents st)"
proof (cases "save_file env fc fn chat_id")
  case (Inl e)
  with assms show ?thesis by (simp add: process_document_def)
next
  case fm: (Inr fm)
  show ?thesis
  proof (cases "extract_text env fc fn")
    case (Inl e)
    with fm assms show ?thesis by (simp add: process_document_def)
  next
    case tx: (Inr tx)
    show ?thesis
    proof (cases "tx = []")
      case True
      with fm tx assms show ?thesis by (simp add: process_document_def)
    next
      case False
      from chunk_text_default_returns obtain chs
        where chs: "chunk_text tx 1000 200 = Some (Inr chs)" by blast
      show ?thesis
      proof (cases chat_id)
        case None
        with fm tx False chs assms show ?thesis
          by (auto simp: process_document_def Let_def)
      next
        case (Some cid)
        with fm tx False chs assms show ?thesis
          by (cases "cid = []") (auto simp: process_document_def Let_def)
      qed
    qed
  qed
qed

text \<open>\<^verbatim>\<open>process_document\<close> always returns: the chunker is called with 1000 and 200.\<close>

lemma process_document_returns: "\<exists>r. process_document env st fc fn chat_id = Some r"
proof (cases "save_file env fc fn chat_id")
  case (Inl e)
  then show ?thesis by (simp add: process_document_def)
next
  case fm: (Inr fm)
  show ?thesis
  proof (cases "extract_text env fc fn")
    case (Inl e)
    with fm show ?thesis by (simp add: process_document_def)
  next
    case tx: (Inr tx)
    from chunk_text_default_returns obtain chs
      where "chunk_text tx 1000 200 = Some (Inr chs)" by blast
    with fm tx show ?thesis by (simp add: process_document_def Let_def)
  qed
qed





lemma local_files_ingest:
  "\<exists>res st1. process_document local_files init_state ''report one'' ''a.txt'' chat_id =
     Some (Inr res, st1)"
  by (simp add: process_document_def local_files_def chunk_text_def Let_def)

section \<open>Claims about the chunker\<close>

text \<open>
  C1. The claim: for every text and every overlap in \<open>[0, chunk_size)\<close> with
  \<open>chunk_size \<ge> 1\<close>, \<^verbatim>\<open>chunk_text\<close> terminates, also when \<open>overlap \<ge> chunk_size\<close>.
  The code does not: on the text \<^verbatim>\<open>aaa.aaa\<close> with chunk size 5 and overlap 4 the
  first window is cut after the full stop, at 4, and the next start is 4 - 4 = 0
  again; on \<^verbatim>\<open>aaa\<close> with chunk size 2 and overlap 2 the next start is 2 - 2 = 0.
  Neither call returns. (\<open>chunk_text_returns\<close> above gives the overlaps for which
  every call returns; they include the defaults 1000 and 200.)
\<close>

theorem chunk_text_never_returns:
  "chunk_text ''aaa.aaa'' 5 4 = None \<and> chunk_text ''aaa'' 2 2 = None"
proof
  have "window_end ''aaa.aaa'' 0 5 = Inr 4" by code_simp
  then have "chunk_loop ''aaa.aaa'' 5 4 0 [] = None"
    by (intro chunk_loop_stuck [where e = 4]) simp_all
  then show "chunk_text ''aaa.aaa'' 5 4 = None" by (simp add: chunk_text_def)
next
  have "window_end ''aaa'' 0 2 = Inr 2" by code_simp
  then have "chunk_loop ''aaa'' 2 2 0 [] = None"
    by (intro chunk_loop_stuck [where e = 2]) simp_all
  then show "chunk_text ''aaa'' 2 2 = None" by (simp add: chunk_text_def)
qed

text \<open>
  C5, as the claim states it, fails: a text no longer than the chunk size comes
  back as it is, with its surrounding whitespace, and the empty text comes back as
  one empty string.
\<close>

theorem chunk_text_short_not_trimmed:
  "int (length '' a '') \<le> 1000 \<and>
   chunk_text '' a '' 1000 200 = Some (Inr ['' a '']) \<and>
   py_strip '' a '' = ''a'' \<and>
   chunk_text [] 1000 200 = Some (Inr [[]])"
  by (simp add: chunk_text_def py_strip_def py_isspace_def)

text \<open>
  C5, amended. A text with \<open>len(text) \<le> chunk_size\<close> is returned whole, as the only
  element and not trimmed. For a longer text, every string of a returned sequence
  is non-empty and has no whitespace at either end.
\<close>

theorem chunk_text_short_whole_long_trimmed:
  "(int (length t) \<le> cs \<longrightarrow> chunk_text t cs ov = Some (Inr [t])) \<and>
   (cs < int (length t) \<longrightarrow> chunk_text t cs ov = Some (Inr chunks) \<longrightarrow>
      (\<forall>c\<in>set chunks. c \<noteq> [] \<and> py_strip c = c))"
proof (intro conjI impI)
  assume "int (length t) \<le> cs"
  then show "chunk_text t cs ov = Some (Inr [t])" by (simp add: chunk_text_def)
next
  assume "cs < int (length t)" "chunk_text t cs ov = Some (Inr chunks)"
  then have "chunk_loop t cs ov 0 [] = Some (Inr chunks)" by (simp add: chunk_text_def)
  from chunk_loop_chunks [OF this] have "list_all trimmed_chunk chunks" by simp
  then show "\<forall>c\<in>set chunks. c \<noteq> [] \<and> py_strip c = c"
    by (simp add: list_all_iff trimmed_chunk_def)
qed

theorem chunk_text_short_whole_long_trimmed_witness:
  "int (length '' a '') \<le> 1000 \<and> chunk_text '' a '' 1000 200 = Some (Inr ['' a '']) \<and>
   2 < int (length ''ab. c'') \<and> chunk_text ''ab. c'' 2 0 = Some (Inr [''ab.'', ''c'']) \<and>
   ''ab.'' \<noteq> [] \<and> py_strip ''ab.'' = ''ab.'' \<and> ''c'' \<noteq> [] \<and> py_strip ''c'' = ''c''"
proof -
  have run: "chunk_text ''ab. c'' 2 0 = Some (Inr [''ab.'', ''c''])" by code_simp
  from chunk_text_short_whole_long_trimmed [of "'' a ''" 1000 200]
    chunk_text_short_whole_long_trimmed [of "''ab. c''" 2 0 "[''ab.'', ''c'']"] run
  show ?thesis by simp
qed

text \<open>
  C6, as the claim states it, fails: the scan starts at the index of the naive end
  itself, so a sentence-ending character there moves the end one to the right. On
  \<^verbatim>\<open>ab.c\<close> with chunk size 2 the first window ends at 3 and the first chunk has
  three characters.
\<close>

theorem window_end_right_of_naive_end:
  "(0::int) + 2 < int (length ''ab.c'') \<and> window_end ''ab.c'' 0 2 = Inr 3 \<and> (0::int) + 2 < 3 \<and>
   chunk_text ''ab.c'' 2 0 = Some (Inr [''ab.'', ''c''])"
  by code_simp

text \<open>
  C6, amended. When the window's right edge \<open>start + chunk_size\<close> is before the end
  of the text, the cut \<open>e\<close> is at most one to the right of it, and exactly one to
  the right when the character at the naive end is itself sentence-ending (and
  \<open>chunk_size \<ge> 1\<close>). If the cut differs from the naive end, it is immediately after
  a sentence-ending character and at least two beyond both
  \<open>start + chunk_size div 2\<close> and \<open>start + chunk_size - 100\<close>; no sentence-ending
  character lies between the cut and the naive end; with no such character at the
  scanned indices the naive end is used. The scan raises an \<^verbatim>\<open>IndexError\<close> only from
  a negative start.
\<close>

theorem window_end_boundary:
  assumes "start + cs < int (length t)"
  shows "case window_end t start cs of
           Inl err \<Rightarrow> start < 0
         | Inr e \<Rightarrow>
             e \<le> start + cs + 1 \<and>
             (e = start + cs + 1 \<longleftrightarrow> 1 \<le> cs \<and> boundary_at t (start + cs)) \<and>
             (e \<noteq> start + cs \<longrightarrow>
                boundary_at t (e - 1) \<and> max (start + cs div 2) (start + cs - 100) + 2 \<le> e) \<and>
             (1 \<le> cs \<longrightarrow> (\<forall>j. e \<le> j \<and> j \<le> start + cs \<longrightarrow> \<not> boundary_at t j)) \<and>
             ((\<forall>j. max (start + cs div 2) (start + cs - 100) < j \<and> j \<le> start + cs
                   \<longrightarrow> \<not> boundary_at t j) \<longrightarrow> e = start + cs)"
proof -
  define stop where "stop = max (start + cs div 2) (start + cs - 100)"
  define n where "n = start + cs"
  have range: "stop < n \<longleftrightarrow> 1 \<le> cs" unfolding stop_def n_def by auto
  have we: "window_end t start cs =
      (case scan_back t n stop of Inl e \<Rightarrow> Inl e | Inr None \<Rightarrow> Inr n | Inr (Some i1) \<Rightarrow> Inr i1)"
    unfolding stop_def n_def using assms by (simp add: window_end_def Let_def)
  have goal: "case window_end t start cs of
           Inl err \<Rightarrow> start < 0
         | Inr e \<Rightarrow>
             e \<le> n + 1 \<and>
             (e = n + 1 \<longleftrightarrow> 1 \<le> cs \<and> boundary_at t n) \<and>
             (e \<noteq> n \<longrightarrow> boundary_at t (e - 1) \<and> stop + 2 \<le> e) \<and>
             (1 \<le> cs \<longrightarrow> (\<forall>j. e \<le> j \<and> j \<le> n \<longrightarrow> \<not> boundary_at t j)) \<and>
             ((\<forall>j. stop < j \<and> j \<le> n \<longrightarrow> \<not> boundary_at t j) \<longrightarrow> e = n)"
  proof (cases "scan_back t n stop")
    case (Inl err)
    then obtain j where j: "stop < j" "j \<le> n" "py_getitem t j = Inl err"
      using scan_back_error by blast
    from py_getitem_error [OF j(3)] j(2) assms have "j < 0" by (auto simp: n_def)
    with j(1,2) have "start < 0" unfolding stop_def n_def by linarith
    with Inl show ?thesis by (simp add: we)
  next
    case (Inr found)
    show ?thesis
    proof (cases found)
      case None
      with Inr have e: "window_end t start cs = Inr n" by (simp add: we)
      from Inr None have none: "\<forall>j. stop < j \<and> j \<le> n \<longrightarrow> \<not> boundary_at t j"
        using scan_back_none by blast
      have c2: "\<not> (1 \<le> cs \<and> boundary_at t n)"
      proof
        assume a: "1 \<le> cs \<and> boundary_at t n"
        with range have "stop < n \<and> n \<le> n" by simp
        with none have "\<not> boundary_at t n" by blast
        with a show False by simp
      qed
      have c4: "1 \<le> cs \<longrightarrow> (\<forall>j. n \<le> j \<and> j \<le> n \<longrightarrow> \<not> boundary_at t j)"
      proof (intro impI allI)
        fix j assume "1 \<le> cs" "n \<le> j \<and> j \<le> n"
        with range have "stop < j \<and> j \<le> n" by simp
        with none show "\<not> boundary_at t j" by blast
      qed
      show ?thesis unfolding e sum.case using c2 c4 by simp
    next
      case (Some e)
      with Inr have e: "window_end t start cs = Inr e" by (simp add: we)
      from Inr Some scan_back_found [of t n stop e]
      have f: "stop + 2 \<le> e" "e \<le> n + 1" "boundary_at t (e - 1)"
        "\<forall>j. e \<le> j \<and> j \<le> n \<longrightarrow> \<not> boundary_at t j"
        by auto
      have top: "e = n + 1 \<longleftrightarrow> 1 \<le> cs \<and> boundary_at t n"
      proof
        assume "e = n + 1"
        with f(1,3) range show "1 \<le> cs \<and> boundary_at t n" by auto
      next
        assume "1 \<le> cs \<and> boundary_at t n"
        then have b: "boundary_at t n" by simp
        have "\<not> e \<le> n"
        proof
          assume "e \<le> n"
          with f(4) have "\<not> boundary_at t n" by simp
          with b show False by simp
        qed
        with f(2) show "e = n + 1" by simp
      qed
      have last: "(\<forall>j. stop < j \<and> j \<le> n \<longrightarrow> \<not> boundary_at t j) \<longrightarrow> e = n"
      proof
        assume no: "\<forall>j. stop < j \<and> j \<le> n \<longrightarrow> \<not> boundary_at t j"
        have "\<not> (e - 1 \<le> n)"
        proof
          assume "e - 1 \<le> n"
          with f(1) have "stop < e - 1 \<and> e - 1 \<le> n" by linarith
          with no have "\<not> boundary_at t (e - 1)" by blast
          with f(3) show False by simp
        qed
        with f(2) show "e = n" by simp
      qed
      show ?thesis unfolding e sum.case
        using f(2) top f(3) f(1) f(4) last by blast
    qed
  qed
  then show ?thesis unfolding stop_def n_def .
qed

theorem window_end_boundary_witness:
  "(0::int) + 6 < int (length ''abcd.fghij'') \<and>
   window_end ''abcd.fghij'' 0 6 = Inr 5 \<and>
   (5::int) \<le> 0 + 6 + 1 \<and>
   boundary_at ''abcd.fghij'' (5 - 1) \<and>
   max (0 + 6 div 2) (0 + 6 - 100) + 2 \<le> (5::int)"
proof -
  have h: "(0::int) + 6 < int (length ''abcd.fghij'')" by simp
  have w: "window_end ''abcd.fghij'' 0 6 = Inr 5" by code_simp
  from window_end_boundary [OF h] w show ?thesis by simp
qed

section \<open>Claims about the classifier, the retriever and the stores\<close>

text \<open>
  C3, as the claim states it, fails: the score is a sum over the list of query
  words, so a token that the query repeats is counted once for each repetition.
  For the query \<^verbatim>\<open>a a\<close> and the chunk \<^verbatim>\<open>a\<close> the score is 2, the number of distinct
  tokens found is 1.
\<close>

theorem score_counts_repeated_token_twice:
  "chunk_score (py_split (py_lower ''a a'')) ''a'' = 2 \<and>
   spec_relevance_score ''a a'' ''a'' = 1"
proof
  show "chunk_score (py_split (py_lower ''a a'')) ''a'' = 2" by code_simp
next
  have "py_split (py_lower ''a a'') = [''a'', ''a'']" by code_simp
  moreover have "py_in ''a'' (py_lower ''a'')" by code_simp
  ultimately have "{word \<in> set (py_split (py_lower ''a a'')). py_in word (py_lower ''a'')} = {''a''}"
    by auto
  then show "spec_relevance_score ''a a'' ''a'' = 1"
    by (simp add: spec_relevance_score_def)
qed

text \<open>
  C3, amended. The relevance score of a chunk is the number of query tokens (the
  query lower-cased and split on whitespace), each counted as often as it occurs
  in the query, that are substrings of the lower-cased chunk. When no token is
  repeated in the query it is the number of distinct tokens found. Every entry
  that \<^verbatim>\<open>simple_search\<close> ranks carries this score, and it is positive.
\<close>

theorem score_counts_token_occurrences:
  fixes query chunk :: string
  defines "ws \<equiv> py_split (py_lower query)"
  shows "chunk_score ws chunk =
           (\<Sum>w\<in>{w \<in> set ws. py_in w (py_lower chunk)}. count_list ws w) \<and>
         (distinct ws \<longrightarrow> chunk_score ws chunk = spec_relevance_score query chunk) \<and>
         (\<forall>x\<in>set (relevant_chunks ws docs).
            sc_score x = chunk_score ws (sc_chunk x) \<and> 0 < sc_score x)"
proof (intro conjI impI ballI)
  show "chunk_score ws chunk =
          (\<Sum>w\<in>{w \<in> set ws. py_in w (py_lower chunk)}. count_list ws w)"
    by (simp only: chunk_score_length length_filter_sum_count)
next
  assume "distinct ws"
  then have "distinct (filter (\<lambda>word. py_in word (py_lower chunk)) ws)" by simp
  then have "card (set (filter (\<lambda>word. py_in word (py_lower chunk)) ws)) =
             length (filter (\<lambda>word. py_in word (py_lower chunk)) ws)"
    by (rule distinct_card)
  moreover have "set (filter (\<lambda>word. py_in word (py_lower chunk)) ws) =
                 {word \<in> set ws. py_in word (py_lower chunk)}"
    by auto
  ultimately have "chunk_score ws chunk = card {word \<in> set ws. py_in word (py_lower chunk)}"
    by (simp only: chunk_score_length)
  then show "chunk_score ws chunk = spec_relevance_score query chunk"
    by (simp only: spec_relevance_score_def ws_def)
next
  fix x assume "x \<in> set (relevant_chunks ws docs)"
  then show "sc_score x = chunk_score ws (sc_chunk x)" "0 < sc_score x"
    using relevant_chunks_scores [of x ws docs] by blast+
qed

theorem score_counts_token_occurrences_witness:
  "distinct (py_split (py_lower ''Report two'')) \<and>
   chunk_score (py_split (py_lower ''Report two'')) ''report one'' = 1 \<and>
   spec_relevance_score ''Report two'' ''report one'' = 1"
proof -
  have d: "distinct (py_split (py_lower ''Report two''))" by code_simp
  have v: "chunk_score (py_split (py_lower ''Report two'')) ''report one'' = 1" by code_simp
  from score_counts_token_occurrences [of "''Report two''" "''report one''" "[]"] d v
  show ?thesis by simp
qed

text \<open>
  C4. \<^verbatim>\<open>should_trigger_web_search\<close> returns false whenever a document-focused phrase
  of the exclusion list is a substring of the lower-cased query, whatever else the
  query contains. Its answer depends on the query only through the lower-cased
  form, and it is true exactly when no exclusion phrase is a substring of that form
  and a trigger keyword is a substring of it, or some substring of it is matched by
  one of the weather or question patterns, or one of the four weather words is a
  substring of it. The three queries of the specification get true, false and
  false; \<^verbatim>\<open>RENEWAL\<close> is true through \<^verbatim>\<open>new\<close> inside a word and in capitals, and a
  question pattern matches across words but not across a line break.
\<close>

theorem document_keyword_blocks_search:
  fixes query query' :: string
  defines "q \<equiv> py_lower query"
  shows
  "((\<exists>keyword\<in>set no_search_keywords. \<exists>p r. q = p @ keyword @ r)
      \<longrightarrow> \<not> should_trigger_web_search query) \<and>
   (py_lower query = py_lower query' \<longrightarrow>
      should_trigger_web_search query = should_trigger_web_search query') \<and>
   (should_trigger_web_search query \<longleftrightarrow>
      \<not> (\<exists>keyword\<in>set no_search_keywords. \<exists>p r. q = p @ keyword @ r) \<and>
      ((\<exists>trigger\<in>set search_triggers. \<exists>p r. q = p @ trigger @ r) \<or>
       (\<exists>pattern\<in>set (weather_patterns @ question_patterns).
           \<exists>p m r. q = p @ m @ r \<and> re_matches pattern m) \<or>
       (\<exists>word\<in>set [''weather'', ''temperature'', ''forecast'', ''climate''].
           \<exists>p r. q = p @ word @ r))) \<and>
   should_trigger_web_search ''what is the weather in Paris today'' \<and>
   \<not> should_trigger_web_search ''summarize this document'' \<and>
   \<not> should_trigger_web_search ''hello'' \<and>
   should_trigger_web_search ''RENEWAL'' \<and>
   should_trigger_web_search ''when exactly did it happen'' \<and>
   \<not> should_trigger_web_search (''when'' @ [CHR 0x0A] @ ''did it happen'')"
proof -
  have full: "should_trigger_web_search query \<longleftrightarrow>
      \<not> (\<exists>keyword\<in>set no_search_keywords. \<exists>p r. q = p @ keyword @ r) \<and>
      ((\<exists>trigger\<in>set search_triggers. \<exists>p r. q = p @ trigger @ r) \<or>
       (\<exists>pattern\<in>set (weather_patterns @ question_patterns).
           \<exists>p m r. q = p @ m @ r \<and> re_matches pattern m) \<or>
       (\<exists>word\<in>set [''weather'', ''temperature'', ''forecast'', ''climate''].
           \<exists>p r. q = p @ word @ r))"
    unfolding should_trigger_web_search_def Let_def list_ex_py_in list_ex_re_search
      q_def [symmetric] set_append bex_Un
    by (rule decision_chain)
  have lower: "py_lower query = py_lower query' \<longrightarrow>
      should_trigger_web_search query = should_trigger_web_search query'"
    by (simp add: should_trigger_web_search_def)
  have e1: "should_trigger_web_search ''what is the weather in Paris today''" by code_simp
  have e2: "\<not> should_trigger_web_search ''summarize this document''" by code_simp
  have e3: "\<not> should_trigger_web_search ''hello''" by code_simp
  have e4: "should_trigger_web_search ''RENEWAL''" by code_simp
  have e5: "should_trigger_web_search ''when exactly did it happen''" by code_simp
  have e6: "\<not> should_trigger_web_search (''when'' @ [CHR 0x0A] @ ''did it happen'')"
    by code_simp
  from full lower e1 e2 e3 e4 e5 e6 show ?thesis by blast
qed

theorem document_keyword_blocks_search_witness:
  "py_lower ''Latest news in the DOCUMENT'' = ''latest news in the '' @ ''document'' @ [] \<and>
   py_lower ''Latest news in the DOCUMENT'' = [] @ ''latest'' @ '' news in the document'' \<and>
   ''document'' \<in> set no_search_keywords \<and>
   ''latest'' \<in> set search_triggers \<and>
   \<not> should_trigger_web_search ''Latest news in the DOCUMENT'' \<and>
   py_lower ''RENEWAL'' = py_lower ''renewal'' \<and>
   should_trigger_web_search ''RENEWAL'' = should_trigger_web_search ''renewal'' \<and>
   should_trigger_web_search ''renewal''"
proof -
  have k: "py_lower ''Latest news in the DOCUMENT'' = ''latest news in the '' @ ''document'' @ []"
    by code_simp
  have t: "py_lower ''Latest news in the DOCUMENT'' = [] @ ''latest'' @ '' news in the document''"
    by code_simp
  have m: "''document'' \<in> set no_search_keywords" by (simp add: no_search_keywords_def)
  have n: "''latest'' \<in> set search_triggers" by (simp add: search_triggers_def)
  have l: "py_lower ''RENEWAL'' = py_lower ''renewal''" by code_simp
  note inst1 = document_keyword_blocks_search [where query = "''Latest news in the DOCUMENT''"]
  note inst2 = document_keyword_blocks_search
      [where query = "''RENEWAL''" and query' = "''renewal''"]
  from k m have "\<exists>keyword\<in>set no_search_keywords. \<exists>p r.
                    py_lower ''Latest news in the DOCUMENT'' = p @ keyword @ r"
    by blast
  with inst1 have a: "\<not> should_trigger_web_search ''Latest news in the DOCUMENT''" by blast
  from inst2 l
  have b: "should_trigger_web_search ''RENEWAL'' = should_trigger_web_search ''renewal''"
    by blast
  from inst2 have "should_trigger_web_search ''RENEWAL''" by blast
  with b have c: "should_trigger_web_search ''renewal''" by simp
  from k t m n a l b c show ?thesis by blast
qed

text \<open>
  C7. When the extracted text is empty, \<^verbatim>\<open>process_document\<close> raises, and the state it
  leaves is the state it was called in: no Document Record, no registry entry.
\<close>

theorem empty_text_leaves_stores:
  assumes "extract_text env file_content filename = Inr []"
  shows "\<exists>msg. process_document env st file_content filename chat_id =
                  Some (Inl (Exception msg), st)"
  using assms
  by (cases "save_file env file_content filename chat_id")
    (simp_all add: process_document_def processing_failed_def)

theorem empty_text_leaves_stores_witness:
  "extract_text local_files [] ''empty.txt'' = Inr [] \<and>
   process_document local_files init_state [] ''empty.txt'' (Some ''c1'') =
     Some (Inl (Exception
       ''Document processing failed: No text could be extracted from the document''),
       init_state)"
proof -
  have h: "extract_text local_files [] ''empty.txt'' = Inr []"
    by (simp add: local_files_def)
  from empty_text_leaves_stores [OF h, of init_state "Some ''c1''"] h
  show ?thesis
    by (simp add: process_document_def processing_failed_def local_files_def)
qed

text \<open>
  C8. On the empty query the classifier answers false and the retriever returns
  the empty string, for every state and chat id; and for a chat that has no
  documents the retriever returns the query unchanged. Both are total functions:
  neither has a path that raises.
\<close>

theorem empty_query_and_empty_chat:
  "\<not> should_trigger_web_search [] \<and>
   simple_search st [] chat_id top_k = [] \<and>
   (\<not> has_documents st (Some cid) \<longrightarrow> simple_search st query (Some cid) top_k = query)"
proof (intro conjI impI)
  show "\<not> should_trigger_web_search []" by code_simp
next
  show "simple_search st [] chat_id top_k = []" by (rule simple_search_empty_query)
next
  assume "\<not> has_documents st (Some cid)"
  then show "simple_search st query (Some cid) top_k = query"
    by (rule simple_search_no_documents)
qed

theorem empty_query_and_empty_chat_witness:
  "\<not> has_documents init_state (Some ''c1'') \<and>
   simple_search init_state ''what is new'' (Some ''c1'') 3 = ''what is new''"
proof -
  have h: "\<not> has_documents init_state (Some ''c1'')"
    by (simp add: has_documents_def init_state_def)
  from empty_query_and_empty_chat
    [where st = init_state and cid = "''c1''" and query = "''what is new''" and top_k = 3] h
  show ?thesis by blast
qed




text \<open>
  C10. Without a chat id (\<^verbatim>\<open>None\<close> or the empty string) \<^verbatim>\<open>simple_search\<close> returns the
  query unchanged in every state; in particular after an ingestion made without a
  chat id, which fills the Global Registry and leaves the Chat Store as it was.
\<close>

theorem search_without_chat_id:
  "simple_search st query None top_k = query \<and>
   simple_search st query (Some []) top_k = query \<and>
   (process_document env st0 file_content filename None = Some (Inr res, st1) \<longrightarrow>
      has_documents st1 None \<and> chat_documents st1 = chat_documents st0 \<and>
      simple_search st1 query None top_k = query)"
proof (intro conjI impI)
  show "simple_search st query None top_k = query" by (simp add: simple_search_def)
  show "simple_search st query (Some []) top_k = query" by (simp add: simple_search_def)
next
  assume a: "process_document env st0 file_content filename None = Some (Inr res, st1)"
  from process_document_success [OF a]
  show "has_documents st1 None" by (auto simp: has_documents_def)
  from process_document_success [OF a]
  show "chat_documents st1 = chat_documents st0" by auto
  show "simple_search st1 query None top_k = query" by (simp add: simple_search_def)
qed

theorem search_without_chat_id_witness:
  "(case process_document local_files init_state ''report one'' ''a.txt'' None of
      Some (Inr res, st1) \<Rightarrow>
        has_documents st1 None \<and> simple_search st1 ''report'' None 3 = ''report''
    | _ \<Rightarrow> False)"
proof -
  from local_files_ingest obtain res st1 where
    run: "process_document local_files init_state ''report one'' ''a.txt'' None =
            Some (Inr res, st1)"
    by blast
  from search_without_chat_id
    [where env = local_files and ?st0.0 = init_state and file_content = "''report one''"
       and filename = "''a.txt''" and res = res and ?st1.0 = st1
       and query = "''report''" and top_k = 3] run
  have "has_documents st1 None \<and> simple_search st1 ''report'' None 3 = ''report''"
    by blast
  then show ?thesis by (simp add: run)
qed

text \<open>
  C2. The claim: after any sequence of \<^verbatim>\<open>process_document\<close> and \<^verbatim>\<open>delete_document\<close>
  calls the registry entries of a chat correspond one-to-one with the records the
  Chat Store holds under it. The code breaks this twice. Ingesting the same bytes
  twice into one chat overwrites the record (same file id) and appends a second
  registry entry: two entries, one record. Ingesting two different files under one
  name and deleting that name removes both registry entries and only the first
  record: no entry, one record, which a second delete can no longer reach.
\<close>

theorem registry_and_chat_store_disagree:
  "(case run_calls local_files init_state
           [ProcessDocument ''report one'' ''a.txt'' (Some ''c1''),
            ProcessDocument ''report one'' ''a.txt'' (Some ''c1'')] of
      None \<Rightarrow> False
    | Some st \<Rightarrow>
        registry_entries st ''c1'' = [(''42095e5a34'', ''a.txt''), (''42095e5a34'', ''a.txt'')] \<and>
        chat_records st ''c1'' = [(''42095e5a34'', ''a.txt'')]) \<and>
   (case run_calls local_files init_state
           [ProcessDocument ''report one'' ''a.txt'' (Some ''c1''),
            ProcessDocument ''report two'' ''a.txt'' (Some ''c1''),
            DeleteDocument ''a.txt'' (Some ''c1'')] of
      None \<Rightarrow> False
    | Some st \<Rightarrow>
        registry_entries st ''c1'' = [] \<and>
        chat_records st ''c1'' = [(''f644e9b966'', ''a.txt'')] \<and>
        has_documents st (Some ''c1'') \<and>
        \<not> fst (delete_document local_files st ''a.txt'' (Some ''c1'')))"
  by code_simp

end
